theory Spec2Isabelle
  imports Main "HOL-Library.Sublist"
begin

section \<open>Target descriptors (struct db_target_descr_t)\<close>

text \<open>
  Descriptors are shared between commands through \<^verbatim>\<open>std::shared_ptr\<close>, and
  \<^verbatim>\<open>same_copy_target\<close> compares the addresses of the two objects before it compares
  their fields. A descriptor object therefore lives in a store at an address; a reference
  or shared pointer to it is the address. The field \<^verbatim>\<open>id\<close> of the source is
  called \<open>id_col\<close> here, because \<open>id\<close> is the identity function of HOL.
\<close>

type_synonym addr = nat

record db_target_descr_t =
  name :: string
  rows :: string
  id_col :: string

type_synonym store = "addr \<Rightarrow> db_target_descr_t"

text \<open>
  \<^verbatim>\<open>return (this == &other) || (name == other.name && rows == other.rows);\<close>
\<close>

definition same_copy_target :: "store \<Rightarrow> addr \<Rightarrow> addr \<Rightarrow> bool" where
  "same_copy_target h this other \<longleftrightarrow>
     this = other \<or> (name (h this) = name (h other) \<and> rows (h this) = rows (h other))"

text \<open>The constructor \<^verbatim>\<open>db_target_descr_t(n, i, r = "")\<close>.\<close>

definition db_target_descr_t_new :: "string \<Rightarrow> string \<Rightarrow> string \<Rightarrow> db_target_descr_t" where
  "db_target_descr_t_new n i r = \<lparr>name = n, rows = r, id_col = i\<rparr>"

section \<open>Deleting objects by id (class db_deleter_by_id_t)\<close>

text \<open>
  The type \<^verbatim>\<open>osmid_t\<close> comes from a header that is not part of the sources read
  here; it is the type parameter \<open>'i\<close>. The enumerators are C++ \<^verbatim>\<open>int\<close> values,
  and \<^verbatim>\<open>size()\<close> is compared with them after the usual conversion, which keeps the
  value of a positive constant.
\<close>

record 'i db_deleter_by_id_t =
  m_deletables :: "'i list"

definition Max_entries :: int where
  "Max_entries = 1000000"

definition has_data :: "'i db_deleter_by_id_t \<Rightarrow> bool" where
  "has_data d \<longleftrightarrow> m_deletables d \<noteq> []"

definition add :: "'i \<Rightarrow> 'i db_deleter_by_id_t \<Rightarrow> 'i db_deleter_by_id_t" where
  "add osm_id d = d\<lparr>m_deletables := m_deletables d @ [osm_id]\<rparr>"

definition is_full :: "'i db_deleter_by_id_t \<Rightarrow> bool" where
  "is_full d \<longleftrightarrow> int (length (m_deletables d)) > Max_entries"

section \<open>Commands (db_cmd_t and its subclasses)\<close>

definition Max_buf_size :: int where
  "Max_buf_size = 10 * 1024 * 1024"

definition Max_buffers :: int where
  "Max_buffers = 10"

text \<open>
  \<^verbatim>\<open>db_cmd_copy_delete_t<DELETER>\<close> with the one deleter of the source,
  \<^verbatim>\<open>db_deleter_by_id_t\<close>: the target (a shared pointer), the copy buffer and the
  deleter.
\<close>

record 'i db_cmd_copy_delete_t =
  target :: addr
  buffer :: string
  m_deleter :: "'i db_deleter_by_id_t"

text \<open>The constructor: the buffer is empty (its capacity is reserved), the deleter too.\<close>

definition db_cmd_copy_delete_t_new :: "addr \<Rightarrow> 'i db_cmd_copy_delete_t" where
  "db_cmd_copy_delete_t_new t = \<lparr>target = t, buffer = [], m_deleter = \<lparr>m_deletables = []\<rparr>\<rparr>"

text \<open>
  \<^verbatim>\<open>return (buffer.size() > Max_buf_size - 100) || m_deleter.is_full();\<close>
\<close>

definition is_full_copy :: "'i db_cmd_copy_delete_t \<Rightarrow> bool" where
  "is_full_copy c \<longleftrightarrow> int (length (buffer c)) > Max_buf_size - 100 \<or> is_full (m_deleter c)"

definition has_deletables :: "'i db_cmd_copy_delete_t \<Rightarrow> bool" where
  "has_deletables c \<longleftrightarrow> has_data (m_deleter c)"

definition add_deletable :: "'i \<Rightarrow> 'i db_cmd_copy_delete_t \<Rightarrow> 'i db_cmd_copy_delete_t" where
  "add_deletable osm_id c = c\<lparr>m_deleter := add osm_id (m_deleter c)\<rparr>"

text \<open>
  The three kinds of command. A sync command owns a \<^verbatim>\<open>std::promise<void>\<close>; the
  promise is named by a number.
\<close>

datatype 'i db_cmd_t =
  Cmd_copy "'i db_cmd_copy_delete_t"
| Cmd_sync nat
| Cmd_finish

section \<open>Flushing the deletions of a command\<close>

text \<open>
  \<^verbatim>\<open>db_cmd_copy_delete_t::delete_data\<close>, from the header:
  \<^verbatim>\<open>if (m_deleter.has_data()) { m_deleter.delete_rows(target->name, target->id, conn); }\<close>

  The header declares \<^verbatim>\<open>db_deleter_by_id_t::delete_rows\<close> and the class
  \<^verbatim>\<open>pg_conn_t\<close> without bodies, so both are parameters here: the connection is a
  value of any type \<open>'conn\<close>, and \<open>delete_rows\<close> is any function that takes the table,
  the column, the connection and the deleter and gives back either an error (the call
  threw) or the deleter as the call left it, together with the connection as the call
  left it. \<^verbatim>\<open>delete_data\<close> passes an error on and changes nothing of the command but
  its deleter.
\<close>

type_synonym ('i, 'conn, 'e) delete_rows_t =
  "string \<Rightarrow> string \<Rightarrow> 'conn \<Rightarrow> 'i db_deleter_by_id_t \<Rightarrow> ('e + 'i db_deleter_by_id_t) \<times> 'conn"

definition delete_data ::
  "('i, 'conn, 'e) delete_rows_t \<Rightarrow> store \<Rightarrow> 'i db_cmd_copy_delete_t \<Rightarrow> 'conn
     \<Rightarrow> ('e + 'i db_cmd_copy_delete_t) \<times> 'conn" where
  "delete_data delete_rows h c conn =
     (if has_data (m_deleter c) then
        (case delete_rows (name (h (target c))) (id_col (h (target c))) conn (m_deleter c) of
           (Inl e, conn') \<Rightarrow> (Inl e, conn')
         | (Inr d', conn') \<Rightarrow> (Inr (c\<lparr>m_deleter := d'\<rparr>), conn'))
      else (Inr c, conn))"

text \<open>
  To say how often \<^verbatim>\<open>delete_data\<close> calls \<^verbatim>\<open>delete_rows\<close>, and with which
  arguments, a \<open>delete_rows\<close> is wrapped so that it also writes each call (the table, the
  column and the identifiers pending at the call) to a journal carried beside the
  connection.
\<close>

type_synonym 'i journal = "(string \<times> string \<times> 'i list) list"

definition journalled ::
  "('i, 'conn, 'e) delete_rows_t \<Rightarrow> ('i, 'conn \<times> 'i journal, 'e) delete_rows_t" where
  "journalled delete_rows table column cj d =
     (case delete_rows table column (fst cj) d of
        (r, conn') \<Rightarrow> (r, (conn', snd cj @ [(table, column, m_deletables d)])))"

section \<open>The database connection (class pg_conn_t)\<close>

text \<open>
  Modelled from the spec: \<^verbatim>\<open>pg_conn_t\<close> is only forward-declared in the header. The
  connection is the external collaborator of the specification: it accepts the calls
  \<open>connect\<close>, \<open>begin_bulk_copy\<close>, \<open>write_bulk_copy_chunk\<close>, \<open>end_bulk_copy\<close>,
  \<open>execute_delete\<close> and \<open>disconnect\<close>, and each of them can fail. The model
  records the calls that succeeded, in order (\<open>sent\<close>), and injects a failure:
  \<open>budget = Some n\<close> lets \<open>n\<close> more calls succeed and makes every later one fail,
  \<open>budget = None\<close> never fails. Since the worker stops at the first failure, this
  covers a failure at any call. The errors are the three kinds of the specification.
\<close>

datatype error = ConnectionError | ProtocolError | DeleteError

datatype 'i conn_call =
  Connect
| Begin_bulk_copy string string
| Write_bulk_copy_chunk string
| End_bulk_copy
| Execute_delete string string "'i list"
| Disconnect

record 'i pg_conn_t =
  sent :: "'i conn_call list"
  budget :: "nat option"

fun error_of :: "'i conn_call \<Rightarrow> error" where
  "error_of Connect = ConnectionError"
| "error_of (Begin_bulk_copy t r) = ProtocolError"
| "error_of (Write_bulk_copy_chunk b) = ProtocolError"
| "error_of End_bulk_copy = ProtocolError"
| "error_of (Execute_delete t c ids) = DeleteError"
| "error_of Disconnect = ConnectionError"

definition conn_exec :: "'i conn_call \<Rightarrow> 'i pg_conn_t \<Rightarrow> (error + unit) \<times> 'i pg_conn_t" where
  "conn_exec c conn =
     (case budget conn of
        None \<Rightarrow> (Inr (), conn\<lparr>sent := sent conn @ [c]\<rparr>)
      | Some 0 \<Rightarrow> (Inl (error_of c), conn)
      | Some (Suc n) \<Rightarrow> (Inr (), conn\<lparr>sent := sent conn @ [c], budget := Some n\<rparr>))"

text \<open>
  Modelled from the spec: the body of \<^verbatim>\<open>db_deleter_by_id_t::delete_rows\<close> is not in
  the header. It issues one batched delete statement for all pending identifiers against
  the table, filtered by the id column, and then clears the batch; a failure of the
  connection is propagated, and the batch is cleared only on success.
\<close>

definition delete_rows :: "('i, 'i pg_conn_t, error) delete_rows_t" where
  "delete_rows table column conn d =
     (case conn_exec (Execute_delete table column (m_deletables d)) conn of
        (Inl e, conn') \<Rightarrow> (Inl e, conn')
      | (Inr u, conn') \<Rightarrow> (Inr (d\<lparr>m_deletables := []\<rparr>), conn'))"

section \<open>The copy thread (class db_copy_thread_t)\<close>

text \<open>
  Modelled from the spec: the header declares the members of \<^verbatim>\<open>db_copy_thread_t\<close>
  (\<^verbatim>\<open>add_buffer\<close>, \<^verbatim>\<open>sync_and_wait\<close>, \<^verbatim>\<open>finish\<close>, \<^verbatim>\<open>worker_thread\<close>,
  \<^verbatim>\<open>connect\<close>, \<^verbatim>\<open>disconnect\<close>, \<^verbatim>\<open>write_to_db\<close>, \<^verbatim>\<open>start_copy\<close>,
  \<^verbatim>\<open>finish_copy\<close>, \<^verbatim>\<open>delete_rows\<close>) and none of their bodies. Everything in
  this section follows the bounded command queue and the worker's protocol state machine
  of the specification.

  The record holds the fields of the class that the specification speaks of: the
  connection, the queue and the target of the open bulk-copy stream. The thread
  \<^verbatim>\<open>m_worker\<close> is represented by where it stands: \<open>Starting\<close> (not yet connected),
  \<open>Running\<close> (in its loop), \<open>Finished\<close> (it has left the loop after a finish command
  and has terminated) or \<open>Failed\<close> with the error it recorded. The states of the
  specification are read off these: \<open>Disconnected\<close> is \<open>Starting\<close> or \<open>Finished\<close>,
  \<open>Idle\<close> is \<open>Running\<close> with no target in flight, \<open>Streaming t\<close> is \<open>Running\<close> with
  \<open>m_inflight = Some t\<close>. \<open>fulfilled\<close> lists the promises whose value has been set.
  Two history fields observe a run and steer nothing: \<open>pushed\<close> is every command in the
  order of the calls of \<^verbatim>\<open>add_buffer\<close>, \<open>applied\<close> is every command the worker
  has carried out to the end, in the order in which it did.
\<close>

datatype worker_status = Starting | Running | Finished | Failed error

record 'i db_copy_thread_t =
  m_conn :: "'i pg_conn_t"
  m_worker :: worker_status
  m_worker_queue :: "'i db_cmd_t list"
  m_inflight :: "addr option"
  fulfilled :: "nat list"
  pushed :: "'i db_cmd_t list"
  applied :: "'i db_cmd_t list"

definition db_copy_thread_t_new :: "nat option \<Rightarrow> 'i db_copy_thread_t" where
  "db_copy_thread_t_new b =
     \<lparr>m_conn = \<lparr>sent = [], budget = b\<rparr>, m_worker = Starting, m_worker_queue = [],
      m_inflight = None, fulfilled = [], pushed = [], applied = []\<rparr>"

text \<open>
  Modelled from the spec: a member function of the worker either completes or throws the
  error of the connection; in both cases the state it has reached so far stays behind.
  \<open>and_then\<close> is the sequencing of two such functions: the second does not run when the
  first has failed. \<open>call_conn\<close> is one call on the connection.
\<close>

type_synonym 'i outcome = "error option \<times> 'i db_copy_thread_t"

definition and_then :: "'i outcome \<Rightarrow> ('i db_copy_thread_t \<Rightarrow> 'i outcome) \<Rightarrow> 'i outcome" where
  "and_then r f = (case r of (None, w) \<Rightarrow> f w | (Some e, w) \<Rightarrow> (Some e, w))"

definition call_conn :: "'i conn_call \<Rightarrow> 'i db_copy_thread_t \<Rightarrow> 'i outcome" where
  "call_conn c w =
     (case conn_exec c (m_conn w) of
        (Inl e, conn') \<Rightarrow> (Some e, w\<lparr>m_conn := conn'\<rparr>)
      | (Inr u, conn') \<Rightarrow> (None, w\<lparr>m_conn := conn'\<rparr>))"

definition connect :: "'i db_copy_thread_t \<Rightarrow> 'i outcome" where
  "connect w = call_conn Connect w"

definition disconnect :: "'i db_copy_thread_t \<Rightarrow> 'i outcome" where
  "disconnect w = call_conn Disconnect w"

text \<open>
  Modelled from the spec: \<^verbatim>\<open>start_copy\<close> opens a bulk-copy stream for the table and
  the row list of the target and remembers the target; \<^verbatim>\<open>finish_copy\<close> ends the
  open stream, if there is one; \<^verbatim>\<open>db_copy_thread_t::delete_rows\<close> (here
  \<open>thread_delete_rows\<close>) flushes the deletions of the command through its
  \<^verbatim>\<open>delete_data\<close>, which is the function of the header.
\<close>

definition start_copy :: "store \<Rightarrow> addr \<Rightarrow> 'i db_copy_thread_t \<Rightarrow> 'i outcome" where
  "start_copy h t w =
     and_then (call_conn (Begin_bulk_copy (name (h t)) (rows (h t))) w)
       (\<lambda>w. (None, w\<lparr>m_inflight := Some t\<rparr>))"

definition finish_copy :: "'i db_copy_thread_t \<Rightarrow> 'i outcome" where
  "finish_copy w =
     (case m_inflight w of
        None \<Rightarrow> (None, w)
      | Some t \<Rightarrow> and_then (call_conn End_bulk_copy w) (\<lambda>w. (None, w\<lparr>m_inflight := None\<rparr>)))"

definition thread_delete_rows ::
  "store \<Rightarrow> 'i db_cmd_copy_delete_t \<Rightarrow> 'i db_copy_thread_t \<Rightarrow> 'i outcome" where
  "thread_delete_rows h c w =
     (case delete_data delete_rows h c (m_conn w) of
        (Inl e, conn') \<Rightarrow> (Some e, w\<lparr>m_conn := conn'\<rparr>)
      | (Inr c', conn') \<Rightarrow> (None, w\<lparr>m_conn := conn'\<rparr>))"

text \<open>
  Modelled from the spec: \<^verbatim>\<open>write_to_db\<close>. With no stream open, or with a stream
  open for a target that is not the same copy target as the command's: end the current
  stream if there is one, flush the deletions if there are any, open a new stream for
  the command's target and write the buffer. With a stream open for the same copy
  target: if there are deletions, end the stream, flush them and reopen the stream
  against the same target; then write the buffer to the open stream. The buffer goes to
  the connection in one call.
\<close>

definition write_to_db ::
  "store \<Rightarrow> 'i db_cmd_copy_delete_t \<Rightarrow> 'i db_copy_thread_t \<Rightarrow> 'i outcome" where
  "write_to_db h c w =
     and_then
       (case m_inflight w of
          None \<Rightarrow>
            and_then (thread_delete_rows h c w) (start_copy h (target c))
        | Some t \<Rightarrow>
            if same_copy_target h t (target c) then
              (if has_deletables c then
                 and_then (and_then (finish_copy w) (thread_delete_rows h c)) (start_copy h t)
               else (None, w))
            else
              and_then (and_then (finish_copy w) (thread_delete_rows h c))
                (start_copy h (target c)))
       (call_conn (Write_bulk_copy_chunk (buffer c)))"

text \<open>
  Modelled from the spec: \<^verbatim>\<open>add_buffer\<close> is the push of the bounded command queue.
  It blocks the caller while the queue holds \<open>Max_buffers\<close> or more copy commands; sync
  and finish commands are never blocked; the command is appended behind whatever is
  queued. A blocked call is \<open>None\<close>: the step cannot be taken in that state. The
  properties proved below about the order of application hold for the pushes that are
  let through; none of them rests on when a push is held back.
\<close>

fun is_copy :: "'i db_cmd_t \<Rightarrow> bool" where
  "is_copy (Cmd_copy c) = True"
| "is_copy (Cmd_sync p) = False"
| "is_copy Cmd_finish = False"

definition add_buffer :: "'i db_cmd_t \<Rightarrow> 'i db_copy_thread_t \<Rightarrow> 'i db_copy_thread_t option" where
  "add_buffer c w =
     (if is_copy c \<and> int (length (filter is_copy (m_worker_queue w))) \<ge> Max_buffers then None
      else Some (w\<lparr>m_worker_queue := m_worker_queue w @ [c], pushed := pushed w @ [c]\<rparr>))"

text \<open>
  Modelled from the spec: one turn of \<^verbatim>\<open>worker_thread\<close>. On start the worker opens
  the connection. In its loop it blocks while the queue is empty (\<open>None\<close>), and
  otherwise pops the oldest command and carries it out: a copy command through
  \<^verbatim>\<open>write_to_db\<close>; a sync command by fulfilling its barrier, with no other change;
  a finish command by ending any open stream, disconnecting and leaving the loop. A
  failure in any of these is fatal: the worker records the error and processes no
  further command, and a worker that has finished or failed takes no turn any more.
  \<open>settle\<close> closes a turn: the command counts as applied when its calls all went
  through.
\<close>

definition settle :: "'i db_cmd_t \<Rightarrow> worker_status \<Rightarrow> 'i outcome \<Rightarrow> 'i db_copy_thread_t" where
  "settle c ok r =
     (case r of
        (None, w) \<Rightarrow> w\<lparr>m_worker := ok, applied := applied w @ [c]\<rparr>
      | (Some e, w) \<Rightarrow> w\<lparr>m_worker := Failed e\<rparr>)"

definition worker_thread :: "store \<Rightarrow> 'i db_copy_thread_t \<Rightarrow> 'i db_copy_thread_t option" where
  "worker_thread h w =
     (case m_worker w of
        Starting \<Rightarrow>
          (case connect w of
             (None, w') \<Rightarrow> Some (w'\<lparr>m_worker := Running\<rparr>)
           | (Some e, w') \<Rightarrow> Some (w'\<lparr>m_worker := Failed e\<rparr>))
      | Running \<Rightarrow>
          (case m_worker_queue w of
             [] \<Rightarrow> None
           | item # q \<Rightarrow>
               (let w1 = w\<lparr>m_worker_queue := q\<rparr> in
                case item of
                  Cmd_copy c \<Rightarrow> Some (settle item Running (write_to_db h c w1))
                | Cmd_sync p \<Rightarrow>
                    Some (w1\<lparr>fulfilled := fulfilled w1 @ [p], applied := applied w1 @ [item]\<rparr>)
                | Cmd_finish \<Rightarrow>
                    Some (settle item Finished (and_then (finish_copy w1) disconnect))))
      | Finished \<Rightarrow> None
      | Failed e \<Rightarrow> None)"

text \<open>
  Modelled from the spec: \<^verbatim>\<open>finish()\<close> pushes a finish command and then joins the
  worker; the join, and with it the call, returns once the worker has terminated.
\<close>

definition finish_returns :: "'i db_copy_thread_t \<Rightarrow> bool" where
  "finish_returns w \<longleftrightarrow> m_worker w = Finished"

text \<open>
  Modelled from the spec: the bodies that take and release \<^verbatim>\<open>m_queue_mutex\<close> are
  not in the header. Producers and the worker run concurrently and meet only at the
  queue, under its mutex. A run of the system is therefore a sequence of atomic events,
  in any interleaving: a producer's push (the push of the finish command by \<^verbatim>\<open>finish()\<close>
  included), a turn of the worker, the return of \<^verbatim>\<open>finish()\<close>. A turn of the
  worker is one event, because between its pop and the end of the command the worker
  touches only the connection and its own fields, which no producer reads or writes. An
  event that is blocked in a state cannot be the next one of a run: \<open>run\<close> is then
  \<open>None\<close>. \<open>pushes\<close> gives the commands of a run in the order of their pushes.
\<close>

datatype 'i event = Add_buffer "'i db_cmd_t" | Worker_thread | Finish_return

fun step :: "store \<Rightarrow> 'i event \<Rightarrow> 'i db_copy_thread_t \<Rightarrow> 'i db_copy_thread_t option" where
  "step h (Add_buffer c) w = add_buffer c w"
| "step h Worker_thread w = worker_thread h w"
| "step h Finish_return w = (if finish_returns w then Some w else None)"

fun run :: "store \<Rightarrow> 'i event list \<Rightarrow> 'i db_copy_thread_t \<Rightarrow> 'i db_copy_thread_t option" where
  "run h [] w = Some w"
| "run h (e # es) w = (case step h e w of None \<Rightarrow> None | Some w' \<Rightarrow> run h es w')"

fun pushes :: "'i event list \<Rightarrow> 'i db_cmd_t list" where
  "pushes [] = []"
| "pushes (Add_buffer c # es) = c # pushes es"
| "pushes (e # es) = pushes es"

section \<open>What the database sees\<close>

text \<open>
  Modelled from the spec: the state of the database is decided by the sequence of calls
  the connection has accepted. Rows are copied into the table and row list of the stream
  that is open when a chunk is written; rows are deleted by a delete statement, which
  must not come while a stream is open; at most one stream is open at a time. A call out
  of this protocol is recorded as a violation. \<open>wire_effects st cs\<close> are the effects of
  the calls \<open>cs\<close> when they start with the stream \<open>st\<close> open, and \<open>wire_stream st cs\<close>
  is the stream open after them.

  \<open>cmd_effects\<close> is what a command means by itself, with no regard to streams: a copy
  command deletes the identifiers attached to it, if any, from its target and then
  copies its buffer into its target; the other commands change nothing in the database.
\<close>

datatype 'i db_effect =
  Rows_deleted string string "'i list"
| Rows_copied string string string
| Protocol_violation

type_synonym stream = "(string \<times> string) option"

fun call_effect :: "stream \<Rightarrow> 'i conn_call \<Rightarrow> 'i db_effect list" where
  "call_effect st Connect = []"
| "call_effect st (Begin_bulk_copy n r) = (if st = None then [] else [Protocol_violation])"
| "call_effect st (Write_bulk_copy_chunk b) =
     (case st of None \<Rightarrow> [Protocol_violation] | Some (n, r) \<Rightarrow> [Rows_copied n r b])"
| "call_effect st End_bulk_copy = (if st = None then [Protocol_violation] else [])"
| "call_effect st (Execute_delete t c ids) =
     (if st = None then [Rows_deleted t c ids] else [Protocol_violation])"
| "call_effect st Disconnect = (if st = None then [] else [Protocol_violation])"

fun call_stream :: "stream \<Rightarrow> 'i conn_call \<Rightarrow> stream" where
  "call_stream st (Begin_bulk_copy n r) = Some (n, r)"
| "call_stream st End_bulk_copy = None"
| "call_stream st Disconnect = None"
| "call_stream st c = st"

fun wire_effects :: "stream \<Rightarrow> 'i conn_call list \<Rightarrow> 'i db_effect list" where
  "wire_effects st [] = []"
| "wire_effects st (c # cs) = call_effect st c @ wire_effects (call_stream st c) cs"

fun wire_stream :: "stream \<Rightarrow> 'i conn_call list \<Rightarrow> stream" where
  "wire_stream st [] = st"
| "wire_stream st (c # cs) = wire_stream (call_stream st c) cs"

fun cmd_effects :: "store \<Rightarrow> 'i db_cmd_t \<Rightarrow> 'i db_effect list" where
  "cmd_effects h (Cmd_copy c) =
     (if has_deletables c
      then [Rows_deleted (name (h (target c))) (id_col (h (target c))) (m_deletables (m_deleter c))]
      else [])
     @ [Rows_copied (name (h (target c))) (rows (h (target c))) (buffer c)]"
| "cmd_effects h (Cmd_sync p) = []"
| "cmd_effects h Cmd_finish = []"

definition applied_effects :: "store \<Rightarrow> 'i db_cmd_t list \<Rightarrow> 'i db_effect list" where
  "applied_effects h cs = concat (map (cmd_effects h) cs)"

section \<open>Auxiliary notions for the proofs\<close>

text \<open>
  \<open>frame\<close>: a member function of the worker touches the connection and the target in
  flight only. \<open>outcome_ok w cs i r\<close>: started in \<open>w\<close>, the function meant to make the
  calls \<open>cs\<close> and to leave the target \<open>i\<close> in flight; it either did so, or it failed at
  a call of \<open>cs\<close> with that call's error, after the calls before it.
\<close>

definition frame :: "'i db_copy_thread_t \<Rightarrow> 'i db_copy_thread_t \<Rightarrow> bool" where
  "frame w w' \<longleftrightarrow>
     m_worker w' = m_worker w \<and> m_worker_queue w' = m_worker_queue w
     \<and> fulfilled w' = fulfilled w \<and> pushed w' = pushed w \<and> applied w' = applied w"

definition outcome_ok ::
  "'i db_copy_thread_t \<Rightarrow> 'i conn_call list \<Rightarrow> addr option \<Rightarrow> 'i outcome \<Rightarrow> bool" where
  "outcome_ok w cs infl r \<longleftrightarrow>
     frame w (snd r)
     \<and> (case fst r of
          None \<Rightarrow> sent (m_conn (snd r)) = sent (m_conn w) @ cs \<and> m_inflight (snd r) = infl
        | Some e \<Rightarrow> (\<exists>cs'. strict_prefix cs' cs \<and> sent (m_conn (snd r)) = sent (m_conn w) @ cs'
                        \<and> e = error_of (cs ! length cs')))"

text \<open>The calls that the parts of \<^verbatim>\<open>write_to_db\<close> make when none of them fails.\<close>

definition finish_calls :: "addr option \<Rightarrow> 'i conn_call list" where
  "finish_calls i = (case i of None \<Rightarrow> [] | Some t \<Rightarrow> [End_bulk_copy])"

definition delete_calls :: "store \<Rightarrow> 'i db_cmd_copy_delete_t \<Rightarrow> 'i conn_call list" where
  "delete_calls h c =
     (if has_deletables c
      then [Execute_delete (name (h (target c))) (id_col (h (target c))) (m_deletables (m_deleter c))]
      else [])"

definition copy_calls :: "store \<Rightarrow> addr option \<Rightarrow> 'i db_cmd_copy_delete_t \<Rightarrow> 'i conn_call list" where
  "copy_calls h i c =
     (case i of
        None \<Rightarrow>
          delete_calls h c @ [Begin_bulk_copy (name (h (target c))) (rows (h (target c)))]
      | Some t \<Rightarrow>
          if same_copy_target h t (target c) then
            (if has_deletables c
             then End_bulk_copy # delete_calls h c @ [Begin_bulk_copy (name (h t)) (rows (h t))]
             else [])
          else End_bulk_copy # delete_calls h c
                 @ [Begin_bulk_copy (name (h (target c))) (rows (h (target c)))])
     @ [Write_bulk_copy_chunk (buffer c)]"

definition next_inflight :: "store \<Rightarrow> addr option \<Rightarrow> 'i db_cmd_copy_delete_t \<Rightarrow> addr" where
  "next_inflight h i c =
     (case i of
        None \<Rightarrow> target c
      | Some t \<Rightarrow> if same_copy_target h t (target c) then t else target c)"

definition stream_of :: "store \<Rightarrow> addr option \<Rightarrow> stream" where
  "stream_of h i = map_option (\<lambda>t. (name (h t), rows (h t))) i"

text \<open>
  The invariants of a run. \<open>inv_fifo\<close>: the commands pushed are the commands applied,
  then the command that failed if one has, then the queue. \<open>inv_wire\<close>: what the
  database has seen begins with the effects of the commands applied, one after the
  other; as long as the worker has not failed it is exactly that, and the stream open
  on the wire is the one the worker has in flight.
\<close>

definition inv_fifo :: "'i db_copy_thread_t \<Rightarrow> bool" where
  "inv_fifo w \<longleftrightarrow>
     (\<exists>mid. pushed w = applied w @ mid @ m_worker_queue w
        \<and> (case m_worker w of Failed e \<Rightarrow> length mid \<le> 1 | ok \<Rightarrow> mid = []))"

definition inv_wire :: "store \<Rightarrow> 'i db_copy_thread_t \<Rightarrow> bool" where
  "inv_wire h w \<longleftrightarrow>
     prefix (applied_effects h (applied w)) (wire_effects None (sent (m_conn w)))
     \<and> (case m_worker w of
          Starting \<Rightarrow> sent (m_conn w) = [] \<and> applied w = [] \<and> m_inflight w = None
        | Running \<Rightarrow>
            wire_effects None (sent (m_conn w)) = applied_effects h (applied w)
            \<and> wire_stream None (sent (m_conn w)) = stream_of h (m_inflight w)
            \<and> Cmd_finish \<notin> set (applied w)
        | Finished \<Rightarrow>
            wire_effects None (sent (m_conn w)) = applied_effects h (applied w)
            \<and> wire_stream None (sent (m_conn w)) = None
            \<and> m_inflight w = None
            \<and> (\<exists>pre. applied w = pre @ [Cmd_finish] \<and> Cmd_finish \<notin> set pre)
            \<and> (\<exists>cs. sent (m_conn w) = cs @ [Disconnect])
        | Failed e \<Rightarrow> Cmd_finish \<notin> set (applied w))"

text \<open>Two tables and a way to write a copy command, for the examples.\<close>

definition two_tables :: store where
  "two_tables = (\<lambda>p. if p = 0 then db_target_descr_t_new ''planet_osm_point'' ''osm_id'' []
                     else db_target_descr_t_new ''planet_osm_line'' ''osm_id'' ''osm_id,way'')"

definition copy_cmd :: "addr \<Rightarrow> string \<Rightarrow> nat list \<Rightarrow> nat db_cmd_t" where
  "copy_cmd t b ids = Cmd_copy \<lparr>target = t, buffer = b, m_deleter = \<lparr>m_deletables = ids\<rparr>\<rparr>"

section \<open>Properties of the target descriptor\<close>

text \<open>
  C7. For every pair of target descriptors, \<^verbatim>\<open>a.same_copy_target(b)\<close> is true
  exactly when the two names are equal and the two row lists are equal. When both
  references name the same object the result is true, as a special case. The id column
  plays no role: overwriting the id columns of the descriptors in the store in any way
  leaves the result as it was.
\<close>

theorem same_copy_target_iff_name_rows:
  "(same_copy_target h a b \<longleftrightarrow> name (h a) = name (h b) \<and> rows (h a) = rows (h b))
   \<and> same_copy_target h a a
   \<and> same_copy_target (\<lambda>p. (h p)\<lparr>id_col := f p\<rparr>) a b = same_copy_target h a b"
  by (auto simp: same_copy_target_def)

section \<open>Properties of the deleter and of the copy command\<close>

lemma delete_data_journal:
  "snd (snd (delete_data (journalled dr) h c (conn, j))) =
     j @ (if has_data (m_deleter c)
          then [(name (h (target c)), id_col (h (target c)), m_deletables (m_deleter c))]
          else [])"
  by (simp add: delete_data_def journalled_def split: prod.split sum.split)

text \<open>
  C9. Flushing the deletions of a command is guarded and batched. With at least one
  identifier pending (\<^verbatim>\<open>has_data()\<close>), \<^verbatim>\<open>delete_data(conn)\<close> is one call of
  \<^verbatim>\<open>delete_rows\<close> with the name and the id column of the command's target, on this
  connection and for all pending identifiers; the call's error, if it has one, is the
  result. With no identifier pending, \<^verbatim>\<open>delete_data(conn)\<close> returns the command and
  the connection as they were. Whatever \<^verbatim>\<open>delete_rows\<close> does, the journal of its
  calls grows by exactly that one call when the batch is not empty, and not at all when
  it is empty.
\<close>

theorem delete_data_guarded:
  "(has_data (m_deleter c) \<longleftrightarrow> m_deletables (m_deleter c) \<noteq> [])
   \<and> (has_data (m_deleter c) \<longrightarrow>
        delete_data dr h c conn =
          (case dr (name (h (target c))) (id_col (h (target c))) conn (m_deleter c) of
             (Inl e, conn') \<Rightarrow> (Inl e, conn')
           | (Inr d', conn') \<Rightarrow> (Inr (c\<lparr>m_deleter := d'\<rparr>), conn')))
   \<and> (\<not> has_data (m_deleter c) \<longrightarrow> delete_data dr h c conn = (Inr c, conn))
   \<and> snd (snd (delete_data (journalled dr) h c (conn, j))) =
        j @ (if has_data (m_deleter c)
             then [(name (h (target c)), id_col (h (target c)), m_deletables (m_deleter c))]
             else [])"
proof -
  have a: "has_data (m_deleter c) \<longleftrightarrow> m_deletables (m_deleter c) \<noteq> []"
    by (simp add: has_data_def)
  have b: "has_data (m_deleter c) \<longrightarrow>
        delete_data dr h c conn =
          (case dr (name (h (target c))) (id_col (h (target c))) conn (m_deleter c) of
             (Inl e, conn') \<Rightarrow> (Inl e, conn')
           | (Inr d', conn') \<Rightarrow> (Inr (c\<lparr>m_deleter := d'\<rparr>), conn'))"
    by (simp add: delete_data_def)
  have d: "\<not> has_data (m_deleter c) \<longrightarrow> delete_data dr h c conn = (Inr c, conn)"
    by (simp add: delete_data_def)
  show ?thesis
    by (rule conjI [OF a conjI [OF b conjI [OF d delete_data_journal]]])
qed

theorem delete_data_guarded_witness:
  "has_data \<lparr>m_deletables = [42::nat]\<rparr>
   \<and> delete_data
        (journalled (\<lambda>table column (n::nat) d. (Inr (d\<lparr>m_deletables := []\<rparr>) :: unit + _, Suc n)))
        (\<lambda>p. db_target_descr_t_new ''planet_osm_point'' ''osm_id'' [])
        \<lparr>target = 0, buffer = ''row'', m_deleter = \<lparr>m_deletables = [42::nat]\<rparr>\<rparr>
        (0, [])
      = (Inr \<lparr>target = 0, buffer = ''row'', m_deleter = \<lparr>m_deletables = []\<rparr>\<rparr>,
         (1, [(''planet_osm_point'', ''osm_id'', [42])]))
   \<and> \<not> has_data \<lparr>m_deletables = [] :: nat list\<rparr>
   \<and> delete_data
        (journalled (\<lambda>table column (n::nat) d. (Inr (d\<lparr>m_deletables := []\<rparr>) :: unit + _, Suc n)))
        (\<lambda>p. db_target_descr_t_new ''planet_osm_point'' ''osm_id'' [])
        \<lparr>target = 0, buffer = ''row'', m_deleter = \<lparr>m_deletables = [] :: nat list\<rparr>\<rparr>
        (0, [])
      = (Inr \<lparr>target = 0, buffer = ''row'', m_deleter = \<lparr>m_deletables = []\<rparr>\<rparr>, (0, []))"
proof -
  let ?h = "\<lambda>p::addr. db_target_descr_t_new ''planet_osm_point'' ''osm_id'' []"
  let ?c1 = "\<lparr>target = 0, buffer = ''row'', m_deleter = \<lparr>m_deletables = [42::nat]\<rparr>\<rparr>"
  let ?c0 = "\<lparr>target = 0, buffer = ''row'', m_deleter = \<lparr>m_deletables = [] :: nat list\<rparr>\<rparr>"
  let ?dr = "\<lambda>(table::string) (column::string) (n::nat) (d::nat db_deleter_by_id_t).
               (Inr (d\<lparr>m_deletables := []\<rparr>) :: unit + nat db_deleter_by_id_t, Suc n)"
  let ?cj = "(0::nat, [] :: nat journal)"
  have y: "has_data (m_deleter ?c1)" and n: "\<not> has_data (m_deleter ?c0)"
    by (simp_all add: has_data_def)
  note t1 = delete_data_guarded [of ?c1 "journalled ?dr" ?h ?cj "[]",
      THEN conjunct2, THEN conjunct1, THEN mp, OF y]
  note t0 = delete_data_guarded [of ?c0 "journalled ?dr" ?h ?cj "[]",
      THEN conjunct2, THEN conjunct2, THEN conjunct1, THEN mp, OF n]
  from y n t1 t0 show ?thesis
    by (simp add: journalled_def db_target_descr_t_new_def)
qed

text \<open>
  C10. A copy command reports itself full exactly when its buffer holds more than
  \<open>10 * 1024 * 1024 - 100\<close> bytes, which is 100 bytes below the buffer size of 10 MiB,
  or when its deleter is full. The signal is advisory: a command that is full still
  takes further bytes in its buffer and further identifiers in its deleter, and stays
  full.
\<close>

theorem is_full_copy_threshold:
  "(is_full_copy c \<longleftrightarrow>
      length (buffer c) > 10 * 1024 * 1024 - 100 \<or> is_full (m_deleter c))
   \<and> Max_buf_size = 10 * 2 ^ 20
   \<and> (is_full_copy c \<longleftrightarrow>
        int (length (buffer c)) + 100 > Max_buf_size \<or> length (m_deletables (m_deleter c)) > 1000000)
   \<and> (is_full_copy c \<longrightarrow>
        is_full_copy (c\<lparr>buffer := buffer c @ bs\<rparr>) \<and> is_full_copy (add_deletable x c))"
  by (auto simp: is_full_copy_def is_full_def Max_buf_size_def Max_entries_def
      add_deletable_def add_def)

theorem is_full_copy_threshold_witness:
  "is_full_copy \<lparr>target = 0, buffer = replicate 10485661 (CHR ''x''),
        m_deleter = \<lparr>m_deletables = [] :: nat list\<rparr>\<rparr>
   \<and> int (length (replicate 10485661 (CHR ''x''))) < Max_buf_size
   \<and> \<not> is_full_copy \<lparr>target = 0, buffer = replicate 10485660 (CHR ''x''),
        m_deleter = \<lparr>m_deletables = [] :: nat list\<rparr>\<rparr>
   \<and> is_full_copy \<lparr>target = 0, buffer = replicate 10485661 (CHR ''x'') @ ''more'',
        m_deleter = \<lparr>m_deletables = [] :: nat list\<rparr>\<rparr>
   \<and> is_full_copy (add_deletable 7 \<lparr>target = 0, buffer = replicate 10485661 (CHR ''x''),
        m_deleter = \<lparr>m_deletables = [] :: nat list\<rparr>\<rparr>)"
proof -
  let ?c = "\<lparr>target = 0, buffer = replicate 10485661 (CHR ''x''),
        m_deleter = \<lparr>m_deletables = [] :: nat list\<rparr>\<rparr>"
  let ?c' = "\<lparr>target = 0, buffer = replicate 10485660 (CHR ''x''),
        m_deleter = \<lparr>m_deletables = [] :: nat list\<rparr>\<rparr>"
  have f: "is_full_copy ?c"
    using is_full_copy_threshold [of ?c] by simp
  have n: "\<not> is_full_copy ?c'"
    using is_full_copy_threshold [of ?c'] by (simp add: is_full_def Max_entries_def)
  from f n is_full_copy_threshold [of ?c "''more''" 7] show ?thesis
    by (simp add: Max_buf_size_def)
qed

section \<open>The worker: calls made, and the invariants of a run\<close>

lemma conn_exec_cases:
  "conn_exec c conn = (Inl (error_of c), conn) \<and> budget conn = Some 0
   \<or> (\<exists>conn'. conn_exec c conn = (Inr (), conn') \<and> sent conn' = sent conn @ [c]
        \<and> budget conn \<noteq> Some 0)"
  by (cases "budget conn"; simp add: conn_exec_def split: nat.split)

lemma outcome_ok_skip: "outcome_ok w [] (m_inflight w) (None, w)"
  by (simp add: outcome_ok_def frame_def)

lemma outcome_ok_call: "outcome_ok w [c] (m_inflight w) (call_conn c w)"
  using conn_exec_cases [of c "m_conn w"]
  by (auto simp: outcome_ok_def frame_def call_conn_def)

lemma outcome_ok_thread_delete_rows:
  "outcome_ok w (delete_calls h c) (m_inflight w) (thread_delete_rows h c w)"
  using conn_exec_cases
    [of "Execute_delete (name (h (target c))) (id_col (h (target c))) (m_deletables (m_deleter c))"
        "m_conn w"]
  by (auto simp: outcome_ok_def frame_def thread_delete_rows_def delete_data_def delete_rows_def
      delete_calls_def has_deletables_def)

lemma outcome_ok_call_at: "m_inflight w = i \<Longrightarrow> outcome_ok w [c] i (call_conn c w)"
  using outcome_ok_call [of w c] by simp

lemma outcome_ok_thread_delete_rows_at:
  "m_inflight w = i \<Longrightarrow> outcome_ok w (delete_calls h c) i (thread_delete_rows h c w)"
  using outcome_ok_thread_delete_rows [of w h c] by simp

lemma outcome_ok_then:
  assumes "outcome_ok w cs i r"
    and "\<And>w1. r = (None, w1) \<Longrightarrow> m_inflight w1 = i \<Longrightarrow> outcome_ok w1 ds j (f w1)"
  shows "outcome_ok w (cs @ ds) j (and_then r f)"
proof (cases r)
  case (Pair e w1)
  show ?thesis
  proof (cases e)
    case None
    with Pair assms(1) have "m_inflight w1 = i"
      by (simp add: outcome_ok_def)
    with None Pair assms(2) have f: "outcome_ok w1 ds j (f w1)"
      by simp
    from assms(1) Pair None have s: "sent (m_conn w1) = sent (m_conn w) @ cs" and fr: "frame w w1"
      by (simp_all add: outcome_ok_def)
    show ?thesis
    proof (cases "fst (f w1)")
      case None
      with f s fr Pair \<open>e = None\<close> show ?thesis
        by (simp add: outcome_ok_def and_then_def frame_def)
    next
      case (Some e')
      with f obtain ds' where d: "strict_prefix ds' ds"
        "sent (m_conn (snd (f w1))) = sent (m_conn w1) @ ds'" "e' = error_of (ds ! length ds')"
        by (auto simp: outcome_ok_def)
      from d(1) have "strict_prefix (cs @ ds') (cs @ ds)"
        by (auto simp: strict_prefix_def)
      moreover have "(cs @ ds) ! length (cs @ ds') = ds ! length ds'"
        by (simp add: nth_append)
      ultimately show ?thesis
        using f s fr Pair \<open>e = None\<close> Some d(2,3)
        by (auto simp: outcome_ok_def and_then_def frame_def)
    qed
  next
    case (Some e')
    with assms(1) Pair obtain cs' where c: "strict_prefix cs' cs"
      "sent (m_conn w1) = sent (m_conn w) @ cs'" "e' = error_of (cs ! length cs')"
      and fr: "frame w w1"
      by (auto simp: outcome_ok_def)
    from c(1) have "strict_prefix cs' (cs @ ds)"
      by (metis prefix_order.less_le_trans prefix_append prefix_order.order_refl prefixI)
    moreover from c(1) have "(cs @ ds) ! length cs' = cs ! length cs'"
      by (metis nth_append prefix_length_less)
    ultimately show ?thesis
      using Pair Some c(2,3) fr
      by (auto simp: outcome_ok_def and_then_def)
  qed
qed

lemma outcome_ok_start_copy:
  "outcome_ok w [Begin_bulk_copy (name (h t)) (rows (h t))] (Some t) (start_copy h t w)"
proof -
  have "outcome_ok w ([Begin_bulk_copy (name (h t)) (rows (h t))] @ []) (Some t) (start_copy h t w)"
    unfolding start_copy_def
    by (rule outcome_ok_then [OF outcome_ok_call]) (simp add: outcome_ok_def frame_def)
  then show ?thesis by simp
qed

lemma outcome_ok_finish_copy:
  "outcome_ok w (finish_calls (m_inflight w)) None (finish_copy w)"
proof (cases "m_inflight w")
  case None
  then show ?thesis
    using outcome_ok_skip [of w] by (simp add: finish_copy_def finish_calls_def)
next
  case (Some t)
  have "outcome_ok w ([End_bulk_copy] @ []) None
          (and_then (call_conn End_bulk_copy w) (\<lambda>w. (None, w\<lparr>m_inflight := None\<rparr>)))"
    by (rule outcome_ok_then [OF outcome_ok_call]) (simp add: outcome_ok_def frame_def)
  with Some show ?thesis
    by (simp add: finish_copy_def finish_calls_def)
qed

lemma outcome_ok_write_to_db:
  "outcome_ok w (copy_calls h (m_inflight w) c) (Some (next_inflight h (m_inflight w) c))
     (write_to_db h c w)"
proof -
  let ?w = "Write_bulk_copy_chunk (buffer c)"
  have del: "outcome_ok w (finish_calls (m_inflight w) @ delete_calls h c) None
      (and_then (finish_copy w) (thread_delete_rows h c))"
    by (rule outcome_ok_then [OF outcome_ok_finish_copy]) (rule outcome_ok_thread_delete_rows_at)
  have reopen: "outcome_ok w
      ((finish_calls (m_inflight w) @ delete_calls h c) @ [Begin_bulk_copy (name (h t)) (rows (h t))])
      (Some t)
      (and_then (and_then (finish_copy w) (thread_delete_rows h c)) (start_copy h t))" for t
    by (rule outcome_ok_then [OF del]) (rule outcome_ok_start_copy)
  have reopen_write: "outcome_ok w
      (((finish_calls (m_inflight w) @ delete_calls h c)
          @ [Begin_bulk_copy (name (h t)) (rows (h t))]) @ [?w])
      (Some t)
      (and_then (and_then (and_then (finish_copy w) (thread_delete_rows h c)) (start_copy h t))
         (call_conn ?w))" for t
    by (rule outcome_ok_then [OF reopen]) (rule outcome_ok_call_at)
  show ?thesis
  proof (cases "m_inflight w")
    case None
    have "outcome_ok w (delete_calls h c @ [Begin_bulk_copy (name (h (target c))) (rows (h (target c)))])
        (Some (target c)) (and_then (thread_delete_rows h c w) (start_copy h (target c)))"
      by (rule outcome_ok_then [OF outcome_ok_thread_delete_rows]) (rule outcome_ok_start_copy)
    then have "outcome_ok w
        ((delete_calls h c @ [Begin_bulk_copy (name (h (target c))) (rows (h (target c)))]) @ [?w])
        (Some (target c))
        (and_then (and_then (thread_delete_rows h c w) (start_copy h (target c))) (call_conn ?w))"
      by (rule outcome_ok_then) (rule outcome_ok_call_at)
    with None show ?thesis
      by (simp add: write_to_db_def copy_calls_def next_inflight_def)
  next
    case (Some t)
    show ?thesis
    proof (cases "same_copy_target h t (target c)")
      case same: True
      show ?thesis
      proof (cases "has_deletables c")
        case True
        with Some same reopen_write [of t] show ?thesis
          by (simp add: write_to_db_def copy_calls_def finish_calls_def next_inflight_def)
      next
        case False
        have "outcome_ok w ([] @ [?w]) (m_inflight w) (and_then (None, w) (call_conn ?w))"
          by (rule outcome_ok_then [OF outcome_ok_skip]) (rule outcome_ok_call_at)
        with Some same False show ?thesis
          by (simp add: write_to_db_def copy_calls_def next_inflight_def)
      qed
    next
      case False
      with Some reopen_write [of "target c"] show ?thesis
        by (simp add: write_to_db_def copy_calls_def finish_calls_def next_inflight_def)
    qed
  qed
qed

lemma wire_effects_append:
  "wire_effects st (xs @ ys) = wire_effects st xs @ wire_effects (wire_stream st xs) ys"
  by (induction xs arbitrary: st) simp_all

lemma wire_stream_append: "wire_stream st (xs @ ys) = wire_stream (wire_stream st xs) ys"
  by (induction xs arbitrary: st) simp_all

lemma copy_calls_effects:
  "wire_effects (stream_of h i) (copy_calls h i c) = cmd_effects h (Cmd_copy c)"
  by (cases i)
    (auto simp: copy_calls_def delete_calls_def stream_of_def same_copy_target_def
      wire_effects_append wire_stream_append)

lemma copy_calls_stream:
  "wire_stream (stream_of h i) (copy_calls h i c) = stream_of h (Some (next_inflight h i c))"
  by (cases i)
    (auto simp: copy_calls_def delete_calls_def stream_of_def same_copy_target_def
      next_inflight_def wire_stream_append)

lemma finish_calls_effects:
  "wire_effects (stream_of h i) (finish_calls i) = []"
  "wire_stream (stream_of h i) (finish_calls i) = None"
  by (cases i; simp add: finish_calls_def stream_of_def)+

lemma strict_prefix_single: "strict_prefix cs' [c] \<longleftrightarrow> cs' = []"
  by (cases cs') auto

lemma settle_cases:
  assumes "outcome_ok w1 cs i r"
  shows "m_worker_queue (settle c ok r) = m_worker_queue w1
     \<and> pushed (settle c ok r) = pushed w1 \<and> fulfilled (settle c ok r) = fulfilled w1
     \<and> (m_worker (settle c ok r) = ok \<and> applied (settle c ok r) = applied w1 @ [c]
          \<and> sent (m_conn (settle c ok r)) = sent (m_conn w1) @ cs
          \<and> m_inflight (settle c ok r) = i
        \<or> (\<exists>e cs'. m_worker (settle c ok r) = Failed e \<and> applied (settle c ok r) = applied w1
             \<and> strict_prefix cs' cs \<and> sent (m_conn (settle c ok r)) = sent (m_conn w1) @ cs'))"
proof (cases r)
  case (Pair e w')
  with assms show ?thesis
    by (cases e) (auto simp: settle_def outcome_ok_def frame_def)
qed

lemma outcome_ok_finish_disconnect:
  "outcome_ok w (finish_calls (m_inflight w) @ [Disconnect]) None
     (and_then (finish_copy w) disconnect)"
  unfolding disconnect_def
  by (rule outcome_ok_then [OF outcome_ok_finish_copy]) (rule outcome_ok_call_at)

lemma inv_init: "inv_fifo (db_copy_thread_t_new b)" "inv_wire h (db_copy_thread_t_new b)"
  by (simp_all add: inv_fifo_def inv_wire_def db_copy_thread_t_new_def applied_effects_def)

lemma add_buffer_inv:
  assumes "add_buffer c w = Some w'"
  shows "inv_fifo w \<Longrightarrow> inv_fifo w'" and "inv_wire h w \<Longrightarrow> inv_wire h w'"
    and "pushed w' = pushed w @ [c]"
proof -
  from assms have w': "w' = w\<lparr>m_worker_queue := m_worker_queue w @ [c], pushed := pushed w @ [c]\<rparr>"
    by (auto simp: add_buffer_def split: if_splits)
  show "inv_fifo w \<Longrightarrow> inv_fifo w'"
    unfolding inv_fifo_def w' by auto
  show "inv_wire h w \<Longrightarrow> inv_wire h w'"
    by (auto simp: inv_wire_def w' split: worker_status.splits)
  show "pushed w' = pushed w @ [c]"
    by (simp add: w')
qed

lemma applied_effects_snoc:
  "applied_effects h (cs @ [c]) = applied_effects h cs @ cmd_effects h c"
  by (simp add: applied_effects_def)

lemma worker_thread_inv:
  assumes step: "worker_thread h w = Some w'" and f: "inv_fifo w" and i: "inv_wire h w"
  shows "inv_fifo w' \<and> inv_wire h w' \<and> pushed w' = pushed w"
proof (cases "m_worker w")
  case Starting
  from outcome_ok_call [of w Connect] have o: "outcome_ok w [Connect] (m_inflight w) (connect w)"
    by (simp add: connect_def)
  obtain e w1 where c: "connect w = (e, w1)"
    by (cases "connect w")
  from o c have fr: "frame w w1"
    by (simp add: outcome_ok_def)
  show ?thesis
  proof (cases e)
    case None
    with step Starting c have w': "w' = w1\<lparr>m_worker := Running\<rparr>"
      by (simp add: worker_thread_def)
    from o c None have "sent (m_conn w1) = sent (m_conn w) @ [Connect]" "m_inflight w1 = m_inflight w"
      by (simp_all add: outcome_ok_def)
    with f i fr Starting show ?thesis
      by (simp add: w' inv_fifo_def inv_wire_def frame_def stream_of_def applied_effects_def)
  next
    case (Some err)
    with step Starting c have w': "w' = w1\<lparr>m_worker := Failed err\<rparr>"
      by (simp add: worker_thread_def)
    from o c Some have "sent (m_conn w1) = sent (m_conn w)"
      by (auto simp: outcome_ok_def strict_prefix_single)
    with f i fr Starting show ?thesis
      by (simp add: w' inv_fifo_def inv_wire_def frame_def applied_effects_def)
  qed
next
  case Running
  with step obtain item q where q: "m_worker_queue w = item # q"
    by (cases "m_worker_queue w") (auto simp: worker_thread_def)
  let ?w1 = "w\<lparr>m_worker_queue := q\<rparr>"
  from f Running q have p: "pushed w = applied w @ item # q"
    by (simp add: inv_fifo_def)
  from i Running have eff: "wire_effects None (sent (m_conn w)) = applied_effects h (applied w)"
    and str: "wire_stream None (sent (m_conn w)) = stream_of h (m_inflight w)"
    and nf: "Cmd_finish \<notin> set (applied w)"
    by (simp_all add: inv_wire_def)
  show ?thesis
  proof (cases item)
    case (Cmd_copy c)
    let ?s = "settle item Running (write_to_db h c ?w1)"
    from step Running q Cmd_copy have w': "w' = ?s"
      by (simp add: worker_thread_def)
    from settle_cases [OF outcome_ok_write_to_db [of ?w1 h c], of item Running]
    have fr: "m_worker_queue ?s = q" "pushed ?s = pushed w"
      and alt: "m_worker ?s = Running \<and> applied ?s = applied w @ [item]
          \<and> sent (m_conn ?s) = sent (m_conn w) @ copy_calls h (m_inflight w) c
          \<and> m_inflight ?s = Some (next_inflight h (m_inflight w) c)
        \<or> (\<exists>e cs'. m_worker ?s = Failed e \<and> applied ?s = applied w
             \<and> sent (m_conn ?s) = sent (m_conn w) @ cs')"
      by auto
    from alt show ?thesis
    proof
      assume a: "m_worker ?s = Running \<and> applied ?s = applied w @ [item]
          \<and> sent (m_conn ?s) = sent (m_conn w) @ copy_calls h (m_inflight w) c
          \<and> m_inflight ?s = Some (next_inflight h (m_inflight w) c)"
      have "inv_fifo ?s"
        using a fr p by (simp add: inv_fifo_def)
      moreover have "inv_wire h ?s"
        using a eff str nf Cmd_copy
        by (simp add: inv_wire_def wire_effects_append wire_stream_append applied_effects_snoc
            copy_calls_effects copy_calls_stream)
      ultimately show ?thesis
        using fr by (simp add: w')
    next
      assume "\<exists>e cs'. m_worker ?s = Failed e \<and> applied ?s = applied w
             \<and> sent (m_conn ?s) = sent (m_conn w) @ cs'"
      then obtain e cs' where a: "m_worker ?s = Failed e" "applied ?s = applied w"
        "sent (m_conn ?s) = sent (m_conn w) @ cs'"
        by blast
      have "pushed ?s = applied ?s @ [item] @ m_worker_queue ?s"
        using a fr p by simp
      then have "inv_fifo ?s"
        unfolding inv_fifo_def using a(1) by (intro exI [of _ "[item]"]) simp
      moreover have "inv_wire h ?s"
        using a eff nf by (simp add: inv_wire_def wire_effects_append)
      ultimately show ?thesis
        using fr by (simp add: w')
    qed
  next
    case (Cmd_sync b)
    with step Running q
    have w': "w' = ?w1\<lparr>fulfilled := fulfilled w @ [b], applied := applied w @ [item]\<rparr>"
      by (simp add: worker_thread_def)
    from p Running eff str nf Cmd_sync show ?thesis
      by (simp add: w' inv_fifo_def inv_wire_def applied_effects_snoc)
  next
    case Cmd_finish
    let ?s = "settle item Finished (and_then (finish_copy ?w1) disconnect)"
    from step Running q Cmd_finish have w': "w' = ?s"
      by (simp add: worker_thread_def)
    from settle_cases [OF outcome_ok_finish_disconnect [of ?w1], of item Finished]
    have fr: "m_worker_queue ?s = q" "pushed ?s = pushed w"
      and alt: "m_worker ?s = Finished \<and> applied ?s = applied w @ [item]
          \<and> sent (m_conn ?s) = sent (m_conn w) @ finish_calls (m_inflight w) @ [Disconnect]
          \<and> m_inflight ?s = None
        \<or> (\<exists>e cs'. m_worker ?s = Failed e \<and> applied ?s = applied w
             \<and> sent (m_conn ?s) = sent (m_conn w) @ cs')"
      by auto
    from alt show ?thesis
    proof
      assume a: "m_worker ?s = Finished \<and> applied ?s = applied w @ [item]
          \<and> sent (m_conn ?s) = sent (m_conn w) @ finish_calls (m_inflight w) @ [Disconnect]
          \<and> m_inflight ?s = None"
      have "inv_fifo ?s"
        using a fr p by (simp add: inv_fifo_def)
      moreover have "wire_effects None (sent (m_conn ?s)) = applied_effects h (applied ?s)"
        using a eff str Cmd_finish
        by (simp add: wire_effects_append applied_effects_snoc finish_calls_effects)
      moreover have "wire_stream None (sent (m_conn ?s)) = None"
        using a str by (simp add: wire_stream_append finish_calls_effects)
      moreover have "\<exists>cs. sent (m_conn ?s) = cs @ [Disconnect]"
        using a by (intro exI [of _ "sent (m_conn w) @ finish_calls (m_inflight w)"]) simp
      moreover have "\<exists>pre. applied ?s = pre @ [Cmd_finish] \<and> Cmd_finish \<notin> set pre"
        using a nf Cmd_finish by (intro exI [of _ "applied w"]) simp
      ultimately have "inv_fifo ?s \<and> inv_wire h ?s"
        using a by (simp add: inv_wire_def)
      then show ?thesis
        using fr by (simp add: w')
    next
      assume "\<exists>e cs'. m_worker ?s = Failed e \<and> applied ?s = applied w
             \<and> sent (m_conn ?s) = sent (m_conn w) @ cs'"
      then obtain e cs' where a: "m_worker ?s = Failed e" "applied ?s = applied w"
        "sent (m_conn ?s) = sent (m_conn w) @ cs'"
        by blast
      have "pushed ?s = applied ?s @ [item] @ m_worker_queue ?s"
        using a fr p by simp
      then have "inv_fifo ?s"
        unfolding inv_fifo_def using a(1) by (intro exI [of _ "[item]"]) simp
      moreover have "inv_wire h ?s"
        using a eff nf by (simp add: inv_wire_def wire_effects_append)
      ultimately show ?thesis
        using fr by (simp add: w')
    qed
  qed
next
  case Finished
  with step show ?thesis
    by (simp add: worker_thread_def)
next
  case (Failed e)
  with step show ?thesis
    by (simp add: worker_thread_def)
qed

lemma step_inv:
  assumes "step h e w = Some w'" and "inv_fifo w" and "inv_wire h w"
  shows "inv_fifo w' \<and> inv_wire h w' \<and> pushed w' = pushed w @ pushes [e]"
proof (cases e)
  case (Add_buffer c)
  with assms have a: "add_buffer c w = Some w'"
    by simp
  from assms add_buffer_inv(1,2) [OF a] add_buffer_inv(3) [OF a] Add_buffer show ?thesis
    by simp
next
  case Worker_thread
  with assms worker_thread_inv [of h w w'] show ?thesis
    by simp
next
  case Finish_return
  with assms show ?thesis
    by (simp split: if_splits)
qed

lemma pushes_append: "pushes (xs @ ys) = pushes xs @ pushes ys"
  by (induction xs rule: pushes.induct) simp_all

lemma run_inv:
  "run h es w = Some w' \<Longrightarrow> inv_fifo w \<Longrightarrow> inv_wire h w
     \<Longrightarrow> inv_fifo w' \<and> inv_wire h w' \<and> pushed w' = pushed w @ pushes es"
proof (induction es arbitrary: w)
  case Nil
  then show ?case by simp
next
  case (Cons e es)
  from Cons.prems(1) obtain w1 where s: "step h e w = Some w1" and r: "run h es w1 = Some w'"
    by (auto split: option.splits)
  from step_inv [OF s Cons.prems(2,3)]
  have 1: "inv_fifo w1" "inv_wire h w1" "pushed w1 = pushed w @ pushes [e]"
    by simp_all
  from Cons.IH [OF r 1(1,2)] 1(3) pushes_append [of "[e]" es] show ?case
    by simp
qed

lemma run_append:
  "run h (xs @ ys) w = (case run h xs w of None \<Rightarrow> None | Some w1 \<Rightarrow> run h ys w1)"
  by (induction xs arbitrary: w) (simp_all split: option.splits)

lemma call_conn_never_fails:
  "budget (m_conn w) = None \<Longrightarrow>
     call_conn c w = (None, w\<lparr>m_conn := (m_conn w)\<lparr>sent := sent (m_conn w) @ [c]\<rparr>\<rparr>)"
  by (simp add: call_conn_def conn_exec_def)

lemma write_to_db_never_fails:
  "budget (m_conn w) = None \<Longrightarrow> fst (write_to_db h c w) = None"
  by (cases "m_inflight w")
    (simp_all add: write_to_db_def and_then_def call_conn_never_fails thread_delete_rows_def
      delete_data_def delete_rows_def conn_exec_def start_copy_def finish_copy_def)

lemma copy_calls_with_deletions:
  "has_deletables c \<Longrightarrow>
     copy_calls h i c =
       (case i of None \<Rightarrow> [] | Some t \<Rightarrow> [End_bulk_copy])
       @ [Execute_delete (name (h (target c))) (id_col (h (target c))) (m_deletables (m_deleter c)),
          Begin_bulk_copy (name (h (target c))) (rows (h (target c))),
          Write_bulk_copy_chunk (buffer c)]"
  by (cases i) (auto simp: copy_calls_def delete_calls_def same_copy_target_def)

lemma worker_thread_copy_applied:
  assumes "m_worker w = Running" and "m_worker_queue w = Cmd_copy c # q"
    and "budget (m_conn w) = None"
  shows "\<exists>w'. worker_thread h w = Some w' \<and> m_worker w' = Running
     \<and> applied w' = applied w @ [Cmd_copy c] \<and> m_worker_queue w' = q
     \<and> sent (m_conn w') = sent (m_conn w) @ copy_calls h (m_inflight w) c"
proof -
  let ?w1 = "w\<lparr>m_worker_queue := q\<rparr>"
  let ?r = "write_to_db h c ?w1"
  from assms(3) have ok: "fst ?r = None"
    by (simp add: write_to_db_never_fails)
  from outcome_ok_write_to_db [of ?w1 h c] ok
  have s: "sent (m_conn (snd ?r)) = sent (m_conn w) @ copy_calls h (m_inflight w) c"
    and fr: "frame ?w1 (snd ?r)"
    by (simp_all add: outcome_ok_def)
  from ok have r: "?r = (None, snd ?r)"
    by (cases ?r) simp
  have "worker_thread h w = Some (settle (Cmd_copy c) Running ?r)"
    using assms(1,2) by (simp add: worker_thread_def)
  moreover have "settle (Cmd_copy c) Running ?r
      = (snd ?r)\<lparr>m_worker := Running, applied := applied (snd ?r) @ [Cmd_copy c]\<rparr>"
    by (subst r) (simp add: settle_def)
  ultimately show ?thesis
    using s fr by (simp add: frame_def)
qed

lemmas thread_defs =
  db_copy_thread_t_new_def add_buffer_def worker_thread_def connect_def disconnect_def
  call_conn_def conn_exec_def and_then_def start_copy_def finish_copy_def thread_delete_rows_def
  delete_data_def delete_rows_def write_to_db_def settle_def has_deletables_def has_data_def
  same_copy_target_def Max_buffers_def finish_returns_def two_tables_def copy_cmd_def
  db_target_descr_t_new_def applied_effects_def

section \<open>The capacity of the deletion batch\<close>

text \<open>
  C8. The capacity of the deletion batch is advisory. \<^verbatim>\<open>is_full()\<close> is true exactly
  when more than 1,000,000 identifiers are pending. \<^verbatim>\<open>add(id)\<close> has no failing
  branch and appends the identifier at the end whatever the size of the batch; a batch
  that is full stays full and still takes the identifier, through the deleter and
  through the command's \<^verbatim>\<open>add_deletable\<close>, which changes nothing else of the
  command; and \<^verbatim>\<open>delete_data\<close> on a command with a full batch makes its one call of
  \<^verbatim>\<open>delete_rows\<close> with every pending identifier. The copy command that holds a full
  batch is still accepted and processed: as long as the queue has room for a copy
  command, \<^verbatim>\<open>add_buffer\<close> appends it to the queue, and when the worker pops it with
  a connection that does not fail, the worker applies it, sending the one delete
  statement with every pending identifier and then writing the buffer. These last two
  statements are about the queue and the worker as modelled from the specification.
\<close>

theorem deleter_capacity_advisory:
  "(is_full d \<longleftrightarrow> length (m_deletables d) > 1000000)
   \<and> m_deletables (add x d) = m_deletables d @ [x]
   \<and> (is_full d \<longrightarrow> is_full (add x d) \<and> has_data (add x d))
   \<and> add_deletable x c = c\<lparr>m_deleter := \<lparr>m_deletables = m_deletables (m_deleter c) @ [x]\<rparr>\<rparr>
   \<and> (is_full (m_deleter c) \<longrightarrow>
        is_full (m_deleter (add_deletable x c)) \<and> has_deletables (add_deletable x c))
   \<and> (is_full (m_deleter c) \<longrightarrow>
        snd (snd (delete_data (journalled dr) h c (conn, j))) =
          j @ [(name (h (target c)), id_col (h (target c)), m_deletables (m_deleter c))])
   \<and> (is_full (m_deleter c) \<and> int (length (filter is_copy (m_worker_queue w))) < Max_buffers \<longrightarrow>
        add_buffer (Cmd_copy c) w =
          Some (w\<lparr>m_worker_queue := m_worker_queue w @ [Cmd_copy c],
                  pushed := pushed w @ [Cmd_copy c]\<rparr>))
   \<and> (is_full (m_deleter c) \<and> m_worker v = Running \<and> m_worker_queue v = Cmd_copy c # q
        \<and> budget (m_conn v) = None \<longrightarrow>
        (\<exists>v'. worker_thread h v = Some v' \<and> m_worker v' = Running
           \<and> applied v' = applied v @ [Cmd_copy c] \<and> m_worker_queue v' = q
           \<and> sent (m_conn v') =
               sent (m_conn v) @ (case m_inflight v of None \<Rightarrow> [] | Some t \<Rightarrow> [End_bulk_copy])
               @ [Execute_delete (name (h (target c))) (id_col (h (target c)))
                    (m_deletables (m_deleter c)),
                  Begin_bulk_copy (name (h (target c))) (rows (h (target c))),
                  Write_bulk_copy_chunk (buffer c)]))"
proof -
  have full: "is_full e \<longleftrightarrow> length (m_deletables e) > 1000000" for e :: "'a db_deleter_by_id_t"
    by (simp add: is_full_def Max_entries_def)
  have app: "m_deletables (add x e) = m_deletables e @ [x]" for e :: "'a db_deleter_by_id_t"
    by (simp add: add_def)
  have stays: "is_full e \<longrightarrow> is_full (add x e) \<and> has_data (add x e)"
    for e :: "'a db_deleter_by_id_t"
    by (simp add: full app has_data_def)
  have cmd: "add_deletable x c = c\<lparr>m_deleter := \<lparr>m_deletables = m_deletables (m_deleter c) @ [x]\<rparr>\<rparr>"
    by (simp add: add_deletable_def add_def)
  have cmd_full: "is_full (m_deleter c) \<longrightarrow>
      is_full (m_deleter (add_deletable x c)) \<and> has_deletables (add_deletable x c)"
    using stays [of "m_deleter c"] by (simp add: add_deletable_def has_deletables_def)
  have nonempty: "has_deletables c" if "is_full (m_deleter c)"
    using that by (auto simp: full has_deletables_def has_data_def)
  have del: "is_full (m_deleter c) \<longrightarrow>
      snd (snd (delete_data (journalled dr) h c (conn, j))) =
        j @ [(name (h (target c)), id_col (h (target c)), m_deletables (m_deleter c))]"
  proof
    assume "is_full (m_deleter c)"
    then have "has_data (m_deleter c)"
      using nonempty by (simp add: has_deletables_def)
    then show "snd (snd (delete_data (journalled dr) h c (conn, j))) =
        j @ [(name (h (target c)), id_col (h (target c)), m_deletables (m_deleter c))]"
      by (simp add: delete_data_journal)
  qed
  have accepted: "is_full (m_deleter c)
        \<and> int (length (filter is_copy (m_worker_queue w))) < Max_buffers \<longrightarrow>
      add_buffer (Cmd_copy c) w =
        Some (w\<lparr>m_worker_queue := m_worker_queue w @ [Cmd_copy c],
                pushed := pushed w @ [Cmd_copy c]\<rparr>)"
    by (simp add: add_buffer_def)
  have processed: "is_full (m_deleter c) \<and> m_worker v = Running
        \<and> m_worker_queue v = Cmd_copy c # q \<and> budget (m_conn v) = None \<longrightarrow>
      (\<exists>v'. worker_thread h v = Some v' \<and> m_worker v' = Running
         \<and> applied v' = applied v @ [Cmd_copy c] \<and> m_worker_queue v' = q
         \<and> sent (m_conn v') =
             sent (m_conn v) @ (case m_inflight v of None \<Rightarrow> [] | Some t \<Rightarrow> [End_bulk_copy])
             @ [Execute_delete (name (h (target c))) (id_col (h (target c)))
                  (m_deletables (m_deleter c)),
                Begin_bulk_copy (name (h (target c))) (rows (h (target c))),
                Write_bulk_copy_chunk (buffer c)])"
  proof (intro impI, elim conjE)
    assume f: "is_full (m_deleter c)" and r: "m_worker v = Running"
      and qu: "m_worker_queue v = Cmd_copy c # q" and b: "budget (m_conn v) = None"
    from worker_thread_copy_applied [OF r qu b, of h]
      copy_calls_with_deletions [OF nonempty [OF f], of h "m_inflight v"]
    show "\<exists>v'. worker_thread h v = Some v' \<and> m_worker v' = Running
         \<and> applied v' = applied v @ [Cmd_copy c] \<and> m_worker_queue v' = q
         \<and> sent (m_conn v') =
             sent (m_conn v) @ (case m_inflight v of None \<Rightarrow> [] | Some t \<Rightarrow> [End_bulk_copy])
             @ [Execute_delete (name (h (target c))) (id_col (h (target c)))
                  (m_deletables (m_deleter c)),
                Begin_bulk_copy (name (h (target c))) (rows (h (target c))),
                Write_bulk_copy_chunk (buffer c)]"
      by simp
  qed
  show ?thesis
    by (rule conjI [OF full conjI [OF app conjI [OF stays conjI [OF cmd conjI [OF cmd_full
          conjI [OF del conjI [OF accepted processed]]]]]]])
qed

theorem deleter_capacity_advisory_witness:
  "is_full \<lparr>m_deletables = replicate 1000001 (5::nat)\<rparr>
   \<and> is_full (add 7 \<lparr>m_deletables = replicate 1000001 (5::nat)\<rparr>)
   \<and> m_deletables (add 7 \<lparr>m_deletables = replicate 1000001 (5::nat)\<rparr>) = replicate 1000001 5 @ [7]
   \<and> has_deletables (add_deletable 7
        \<lparr>target = 0, buffer = ''row'', m_deleter = \<lparr>m_deletables = replicate 1000001 (5::nat)\<rparr>\<rparr>)
   \<and> snd (snd (delete_data
        (journalled (\<lambda>table column (n::nat) d. (Inr (d\<lparr>m_deletables := []\<rparr>) :: unit + _, Suc n)))
        (\<lambda>p. db_target_descr_t_new ''planet_osm_point'' ''osm_id'' [])
        \<lparr>target = 0, buffer = ''row'', m_deleter = \<lparr>m_deletables = replicate 1000001 (5::nat)\<rparr>\<rparr>
        (0, [])))
      = [(''planet_osm_point'', ''osm_id'', replicate 1000001 5)]
   \<and> add_buffer
        (Cmd_copy \<lparr>target = 0, buffer = ''row'',
                    m_deleter = \<lparr>m_deletables = replicate 1000001 (5::nat)\<rparr>\<rparr>)
        (db_copy_thread_t_new None)
      = Some \<lparr>m_conn = \<lparr>sent = [], budget = None\<rparr>, m_worker = Starting,
              m_worker_queue = [Cmd_copy \<lparr>target = 0, buffer = ''row'',
                    m_deleter = \<lparr>m_deletables = replicate 1000001 5\<rparr>\<rparr>],
              m_inflight = None, fulfilled = [],
              pushed = [Cmd_copy \<lparr>target = 0, buffer = ''row'',
                    m_deleter = \<lparr>m_deletables = replicate 1000001 5\<rparr>\<rparr>],
              applied = []\<rparr>
   \<and> (\<exists>v'. worker_thread (\<lambda>p. db_target_descr_t_new ''planet_osm_point'' ''osm_id'' [])
          \<lparr>m_conn = \<lparr>sent = [Connect], budget = None\<rparr>, m_worker = Running,
             m_worker_queue = [Cmd_copy \<lparr>target = 0, buffer = ''row'',
                    m_deleter = \<lparr>m_deletables = replicate 1000001 (5::nat)\<rparr>\<rparr>],
             m_inflight = None, fulfilled = [],
             pushed = [Cmd_copy \<lparr>target = 0, buffer = ''row'',
                    m_deleter = \<lparr>m_deletables = replicate 1000001 5\<rparr>\<rparr>],
             applied = []\<rparr> = Some v'
        \<and> m_worker v' = Running
        \<and> applied v' = [Cmd_copy \<lparr>target = 0, buffer = ''row'',
                    m_deleter = \<lparr>m_deletables = replicate 1000001 5\<rparr>\<rparr>]
        \<and> m_worker_queue v' = []
        \<and> sent (m_conn v') =
            [Connect, Execute_delete ''planet_osm_point'' ''osm_id'' (replicate 1000001 5),
             Begin_bulk_copy ''planet_osm_point'' [], Write_bulk_copy_chunk ''row''])"
proof -
  let ?d = "\<lparr>m_deletables = replicate 1000001 (5::nat)\<rparr>"
  let ?c = "\<lparr>target = 0, buffer = ''row'', m_deleter = ?d\<rparr>"
  let ?h = "\<lambda>p::addr. db_target_descr_t_new ''planet_osm_point'' ''osm_id'' []"
  let ?dr = "\<lambda>(table::string) (column::string) (n::nat) (d::nat db_deleter_by_id_t).
               (Inr (d\<lparr>m_deletables := []\<rparr>) :: unit + nat db_deleter_by_id_t, Suc n)"
  let ?w = "db_copy_thread_t_new None :: nat db_copy_thread_t"
  let ?v = "\<lparr>m_conn = \<lparr>sent = [Connect], budget = None\<rparr>, m_worker = Running,
             m_worker_queue = [Cmd_copy ?c], m_inflight = None, fulfilled = [],
             pushed = [Cmd_copy ?c], applied = []\<rparr>"
  note t = deleter_capacity_advisory
    [where d = ?d and x = 7 and c = ?c and dr = ?dr and h = ?h and conn = 0 and j = "[]"
       and w = ?w and v = ?v and q = "[]"]
  have f: "is_full ?d"
    by (simp add: is_full_def Max_entries_def)
  then have fc: "is_full (m_deleter ?c)"
    by simp
  have room: "int (length (filter is_copy (m_worker_queue ?w))) < Max_buffers"
    by (simp add: db_copy_thread_t_new_def Max_buffers_def)
  have turn: "m_worker ?v = Running \<and> m_worker_queue ?v = Cmd_copy ?c # []
      \<and> budget (m_conn ?v) = None"
    by simp
  note 1 = t [THEN conjunct2, THEN conjunct2, THEN conjunct1, THEN mp, OF f, THEN conjunct1]
  from t [THEN conjunct2, THEN conjunct1]
  have 2: "m_deletables (add 7 ?d) = replicate 1000001 5 @ [7]"
    by simp
  note 3 = t [THEN conjunct2, THEN conjunct2, THEN conjunct2, THEN conjunct2, THEN conjunct1,
      THEN mp, OF fc, THEN conjunct2]
  from t [THEN conjunct2, THEN conjunct2, THEN conjunct2, THEN conjunct2, THEN conjunct2,
      THEN conjunct1, THEN mp, OF fc]
  have 4: "snd (snd (delete_data (journalled ?dr) ?h ?c (0, []))) =
      [(''planet_osm_point'', ''osm_id'', replicate 1000001 5)]"
    by (simp add: db_target_descr_t_new_def)
  from t [THEN conjunct2, THEN conjunct2, THEN conjunct2, THEN conjunct2, THEN conjunct2,
      THEN conjunct2, THEN conjunct1, THEN mp, OF conjI [OF fc room]]
  have 5: "add_buffer (Cmd_copy ?c) ?w
      = Some \<lparr>m_conn = \<lparr>sent = [], budget = None\<rparr>, m_worker = Starting,
              m_worker_queue = [Cmd_copy ?c], m_inflight = None, fulfilled = [],
              pushed = [Cmd_copy ?c], applied = []\<rparr>"
    by (simp add: db_copy_thread_t_new_def)
  from t [THEN conjunct2, THEN conjunct2, THEN conjunct2, THEN conjunct2, THEN conjunct2,
      THEN conjunct2, THEN conjunct2, THEN mp, OF conjI [OF fc turn]]
  have 6: "\<exists>v'. worker_thread ?h ?v = Some v' \<and> m_worker v' = Running
        \<and> applied v' = [Cmd_copy ?c] \<and> m_worker_queue v' = []
        \<and> sent (m_conn v') =
            [Connect, Execute_delete ''planet_osm_point'' ''osm_id'' (replicate 1000001 5),
             Begin_bulk_copy ''planet_osm_point'' [], Write_bulk_copy_chunk ''row'']"
    by (simp add: db_target_descr_t_new_def)
  from f 1 2 3 4 5 6 show ?thesis
    by (intro conjI)
qed

section \<open>Properties of the queue and the worker\<close>

text \<open>
  C1. Strict order of application. In every run, that is for any interleaving of the
  pushes of the producers with the turns of the worker and for a connection that fails
  at any call or at none, the commands pushed are those of the run in the order of their
  pushes, and the commands the worker has applied are a prefix of them, in that order.
  What the database has seen begins with the effects of the applied commands, for each
  command its deletions and then its buffer, one command after the other. As long as the
  worker has not failed, the pushed commands are the applied ones followed by the queue,
  and the database has seen exactly the effects of the applied commands. So once the
  queue is empty, the state of the database, under any meaning \<open>ap\<close> of the effects, is
  the one that the commands reach in push order, whether or not the worker has kept a
  stream open from one command to the next.
\<close>

theorem worker_applies_in_push_order:
  assumes "run h evs (db_copy_thread_t_new b) = Some w"
  shows "pushed w = pushes evs
    \<and> prefix (applied w) (pushes evs)
    \<and> prefix (applied_effects h (applied w)) (wire_effects None (sent (m_conn w)))
    \<and> ((\<forall>e. m_worker w \<noteq> Failed e) \<longrightarrow>
          pushes evs = applied w @ m_worker_queue w
          \<and> wire_effects None (sent (m_conn w)) = applied_effects h (applied w))
    \<and> ((\<forall>e. m_worker w \<noteq> Failed e) \<and> m_worker_queue w = [] \<longrightarrow>
          fold ap (wire_effects None (sent (m_conn w))) db
            = fold ap (applied_effects h (pushes evs)) db)"
proof -
  from run_inv [OF assms inv_init]
  have f: "inv_fifo w" and i: "inv_wire h w" and p: "pushed w = pushes evs"
    by (simp_all add: db_copy_thread_t_new_def)
  from f p have pre: "prefix (applied w) (pushes evs)"
    by (auto simp: inv_fifo_def)
  from i have eff: "prefix (applied_effects h (applied w)) (wire_effects None (sent (m_conn w)))"
    by (simp add: inv_wire_def)
  have ok: "pushes evs = applied w @ m_worker_queue w
      \<and> wire_effects None (sent (m_conn w)) = applied_effects h (applied w)"
    if "\<forall>e. m_worker w \<noteq> Failed e"
    using that f i p
    by (cases "m_worker w") (auto simp: inv_fifo_def inv_wire_def applied_effects_def)
  then have drained: "fold ap (wire_effects None (sent (m_conn w))) db
      = fold ap (applied_effects h (pushes evs)) db"
    if "(\<forall>e. m_worker w \<noteq> Failed e) \<and> m_worker_queue w = []"
    using that by simp
  from p pre eff ok drained show ?thesis
    by blast
qed

theorem worker_applies_in_push_order_witness:
  "\<exists>w. run two_tables
          [Add_buffer (copy_cmd 0 ''b1'' []), Worker_thread, Add_buffer (copy_cmd 0 ''b2'' []),
           Worker_thread, Add_buffer (copy_cmd 0 ''b3'' [42]), Worker_thread, Worker_thread]
          (db_copy_thread_t_new None) = Some w
     \<and> m_worker w = Running \<and> m_worker_queue w = []
     \<and> applied w = [copy_cmd 0 ''b1'' [], copy_cmd 0 ''b2'' [], copy_cmd 0 ''b3'' [42]]
     \<and> sent (m_conn w) =
         [Connect, Begin_bulk_copy ''planet_osm_point'' [], Write_bulk_copy_chunk ''b1'',
          Write_bulk_copy_chunk ''b2'', End_bulk_copy,
          Execute_delete ''planet_osm_point'' ''osm_id'' [42],
          Begin_bulk_copy ''planet_osm_point'' [], Write_bulk_copy_chunk ''b3'']
     \<and> wire_effects None (sent (m_conn w)) =
         [Rows_copied ''planet_osm_point'' [] ''b1'', Rows_copied ''planet_osm_point'' [] ''b2'',
          Rows_deleted ''planet_osm_point'' ''osm_id'' [42],
          Rows_copied ''planet_osm_point'' [] ''b3'']"
proof -
  let ?evs = "[Add_buffer (copy_cmd 0 ''b1'' []), Worker_thread, Add_buffer (copy_cmd 0 ''b2'' []),
           Worker_thread, Add_buffer (copy_cmd 0 ''b3'' [42]), Worker_thread, Worker_thread]"
  have "\<exists>w. run two_tables ?evs (db_copy_thread_t_new None) = Some w
      \<and> m_worker w = Running \<and> m_worker_queue w = []
      \<and> sent (m_conn w) =
         [Connect, Begin_bulk_copy ''planet_osm_point'' [], Write_bulk_copy_chunk ''b1'',
          Write_bulk_copy_chunk ''b2'', End_bulk_copy,
          Execute_delete ''planet_osm_point'' ''osm_id'' [42],
          Begin_bulk_copy ''planet_osm_point'' [], Write_bulk_copy_chunk ''b3'']"
    by (simp add: thread_defs)
  then obtain w where r: "run two_tables ?evs (db_copy_thread_t_new None) = Some w"
    and ok: "m_worker w = Running" "m_worker_queue w = []"
    and s: "sent (m_conn w) =
         [Connect, Begin_bulk_copy ''planet_osm_point'' [], Write_bulk_copy_chunk ''b1'',
          Write_bulk_copy_chunk ''b2'', End_bulk_copy,
          Execute_delete ''planet_osm_point'' ''osm_id'' [42],
          Begin_bulk_copy ''planet_osm_point'' [], Write_bulk_copy_chunk ''b3'']"
    by blast
  from worker_applies_in_push_order [OF r, where ap = "(#)" and db = "[]"] ok
  have "pushes ?evs = applied w"
    and e: "wire_effects None (sent (m_conn w)) = applied_effects two_tables (applied w)"
    by simp_all
  then have "applied w = pushes ?evs"
    by simp
  then have a: "applied w = [copy_cmd 0 ''b1'' [], copy_cmd 0 ''b2'' [], copy_cmd 0 ''b3'' [42]]"
    by simp
  have "wire_effects None (sent (m_conn w)) =
         [Rows_copied ''planet_osm_point'' [] ''b1'', Rows_copied ''planet_osm_point'' [] ''b2'',
          Rows_deleted ''planet_osm_point'' ''osm_id'' [42],
          Rows_copied ''planet_osm_point'' [] ''b3'']"
    unfolding e a by (simp add: thread_defs)
  with a r ok s show ?thesis
    by blast
qed

text \<open>
  C2. When deletions are attached to a copy command, \<^verbatim>\<open>write_to_db\<close> makes its
  calls in this order and in no other: the end of the open stream if one is open, the
  delete statement for the attached identifiers against the table and the id column of
  the command's target, the opening of a stream for the table and row list of the
  command's target, the write of the buffer. When a call fails, the calls before it have
  been made and none after it, so the buffer is never written unless the delete statement
  has gone through before. This holds as well when the open stream has the same copy
  target as the command: the stream is ended, the deletions are flushed, the stream is
  opened again, and then the buffer is written.
\<close>

theorem deletions_before_copy:
  assumes "has_deletables c"
  shows "\<exists>cs. sent (m_conn (snd (write_to_db h c w))) = sent (m_conn w) @ cs
    \<and> prefix cs
        ((case m_inflight w of None \<Rightarrow> [] | Some t \<Rightarrow> [End_bulk_copy])
         @ [Execute_delete (name (h (target c))) (id_col (h (target c)))
              (m_deletables (m_deleter c)),
            Begin_bulk_copy (name (h (target c))) (rows (h (target c))),
            Write_bulk_copy_chunk (buffer c)])
    \<and> (fst (write_to_db h c w) = None \<longleftrightarrow>
        cs = (case m_inflight w of None \<Rightarrow> [] | Some t \<Rightarrow> [End_bulk_copy])
         @ [Execute_delete (name (h (target c))) (id_col (h (target c)))
              (m_deletables (m_deleter c)),
            Begin_bulk_copy (name (h (target c))) (rows (h (target c))),
            Write_bulk_copy_chunk (buffer c)])"
proof -
  let ?plan = "(case m_inflight w of None \<Rightarrow> [] | Some t \<Rightarrow> [End_bulk_copy])
         @ [Execute_delete (name (h (target c))) (id_col (h (target c)))
              (m_deletables (m_deleter c)),
            Begin_bulk_copy (name (h (target c))) (rows (h (target c))),
            Write_bulk_copy_chunk (buffer c)]"
  from assms have plan: "copy_calls h (m_inflight w) c = ?plan"
    by (cases "m_inflight w") (auto simp: copy_calls_def delete_calls_def same_copy_target_def)
  obtain e w' where r: "write_to_db h c w = (e, w')"
    by (cases "write_to_db h c w")
  from outcome_ok_write_to_db [of w h c] r plan
  have o: "outcome_ok w ?plan (Some (next_inflight h (m_inflight w) c)) (e, w')"
    by simp
  show ?thesis
  proof (cases e)
    case None
    with o r show ?thesis
      by (simp add: outcome_ok_def)
  next
    case (Some err)
    with o obtain cs' where "strict_prefix cs' ?plan" "sent (m_conn w') = sent (m_conn w) @ cs'"
      by (auto simp: outcome_ok_def)
    with r Some show ?thesis
      by (intro exI [of _ cs']) (auto simp: strict_prefix_def)
  qed
qed

theorem deletions_before_copy_witness:
  "has_deletables \<lparr>target = 1, buffer = ''b2'', m_deleter = \<lparr>m_deletables = [42::nat]\<rparr>\<rparr>
   \<and> same_copy_target (\<lambda>p. db_target_descr_t_new ''planet_osm_point'' ''osm_id'' []) 0 1
   \<and> write_to_db (\<lambda>p. db_target_descr_t_new ''planet_osm_point'' ''osm_id'' [])
        \<lparr>target = 1, buffer = ''b2'', m_deleter = \<lparr>m_deletables = [42::nat]\<rparr>\<rparr>
        \<lparr>m_conn = \<lparr>sent = [Connect, Begin_bulk_copy ''planet_osm_point'' [],
                            Write_bulk_copy_chunk ''b1''], budget = None\<rparr>,
           m_worker = Running, m_worker_queue = [], m_inflight = Some 0, fulfilled = [],
           pushed = [], applied = []\<rparr>
      = (None,
        \<lparr>m_conn = \<lparr>sent = [Connect, Begin_bulk_copy ''planet_osm_point'' [],
                            Write_bulk_copy_chunk ''b1'', End_bulk_copy,
                            Execute_delete ''planet_osm_point'' ''osm_id'' [42],
                            Begin_bulk_copy ''planet_osm_point'' [],
                            Write_bulk_copy_chunk ''b2''], budget = None\<rparr>,
           m_worker = Running, m_worker_queue = [], m_inflight = Some 0, fulfilled = [],
           pushed = [], applied = []\<rparr>)"
proof -
  let ?h = "\<lambda>p::addr. db_target_descr_t_new ''planet_osm_point'' ''osm_id'' []"
  let ?c = "\<lparr>target = 1, buffer = ''b2'', m_deleter = \<lparr>m_deletables = [42::nat]\<rparr>\<rparr>"
  let ?w = "\<lparr>m_conn = \<lparr>sent = [Connect, Begin_bulk_copy ''planet_osm_point'' [],
                            Write_bulk_copy_chunk ''b1''] :: nat conn_call list, budget = None\<rparr>,
           m_worker = Running, m_worker_queue = [], m_inflight = Some 0, fulfilled = [],
           pushed = [], applied = []\<rparr>"
  have d: "has_deletables ?c"
    by (simp add: has_deletables_def has_data_def)
  from deletions_before_copy [OF d, of ?h ?w] d show ?thesis
    by (simp add: thread_defs)
qed

text \<open>
  C4. \<^verbatim>\<open>finish()\<close> returns only when the worker has terminated after a finish
  command. In every run in which \<^verbatim>\<open>finish()\<close> returns, the commands pushed before
  the first finish command have all been applied, in the order of their pushes, none is
  lost, and the database has seen exactly their effects; what is left in the queue was
  pushed after that finish command; no stream is open, in the worker and on the wire;
  the last call on the connection was the disconnect; and the worker has terminated: it
  takes no further turn.
\<close>

theorem finish_returns_after_drain:
  assumes "run h (evs @ [Finish_return]) (db_copy_thread_t_new b) = Some w"
  shows "\<exists>pre post. pushes evs = pre @ Cmd_finish # post \<and> Cmd_finish \<notin> set pre
    \<and> applied w = pre @ [Cmd_finish]
    \<and> m_worker_queue w = post
    \<and> wire_effects None (sent (m_conn w)) = applied_effects h pre
    \<and> wire_stream None (sent (m_conn w)) = None
    \<and> m_inflight w = None
    \<and> (\<exists>cs. sent (m_conn w) = cs @ [Disconnect])
    \<and> m_worker w = Finished
    \<and> worker_thread h w = None"
proof -
  from assms obtain w1 where r: "run h evs (db_copy_thread_t_new b) = Some w1"
    and s: "step h Finish_return w1 = Some w"
    by (auto simp: run_append split: option.splits)
  from s have fin: "m_worker w = Finished" and w: "w1 = w"
    by (auto simp: finish_returns_def split: if_splits)
  from run_inv [OF r inv_init] w
  have f: "inv_fifo w" and i: "inv_wire h w" and p: "pushed w = pushes evs"
    by (simp_all add: db_copy_thread_t_new_def)
  from i fin obtain pre where pre: "applied w = pre @ [Cmd_finish]" "Cmd_finish \<notin> set pre"
    and eff: "wire_effects None (sent (m_conn w)) = applied_effects h (applied w)"
    and rest: "wire_stream None (sent (m_conn w)) = None" "m_inflight w = None"
      "\<exists>cs. sent (m_conn w) = cs @ [Disconnect]"
    by (auto simp: inv_wire_def)
  from f fin p pre have "pushes evs = pre @ Cmd_finish # m_worker_queue w"
    by (simp add: inv_fifo_def)
  moreover from eff pre have "wire_effects None (sent (m_conn w)) = applied_effects h pre"
    by (simp add: applied_effects_snoc)
  moreover from fin have "worker_thread h w = None"
    by (simp add: worker_thread_def)
  ultimately show ?thesis
    using pre rest fin by blast
qed

theorem finish_returns_after_drain_witness:
  "\<exists>w. run two_tables
          ([Add_buffer (copy_cmd 0 ''b1'' []), Worker_thread, Add_buffer (copy_cmd 1 ''b2'' [7]),
            Add_buffer Cmd_finish, Worker_thread, Worker_thread, Worker_thread]
           @ [Finish_return])
          (db_copy_thread_t_new None) = Some w
     \<and> m_worker w = Finished \<and> m_worker_queue w = [] \<and> m_inflight w = None
     \<and> applied w = [copy_cmd 0 ''b1'' [], copy_cmd 1 ''b2'' [7], Cmd_finish]
     \<and> sent (m_conn w) =
         [Connect, Begin_bulk_copy ''planet_osm_point'' [], Write_bulk_copy_chunk ''b1'',
          End_bulk_copy, Execute_delete ''planet_osm_line'' ''osm_id'' [7],
          Begin_bulk_copy ''planet_osm_line'' ''osm_id,way'', Write_bulk_copy_chunk ''b2'',
          End_bulk_copy, Disconnect]"
proof -
  let ?evs = "[Add_buffer (copy_cmd 0 ''b1'' []), Worker_thread, Add_buffer (copy_cmd 1 ''b2'' [7]),
            Add_buffer Cmd_finish, Worker_thread, Worker_thread, Worker_thread]"
  have "\<exists>w. run two_tables (?evs @ [Finish_return]) (db_copy_thread_t_new None) = Some w
      \<and> sent (m_conn w) =
         [Connect, Begin_bulk_copy ''planet_osm_point'' [], Write_bulk_copy_chunk ''b1'',
          End_bulk_copy, Execute_delete ''planet_osm_line'' ''osm_id'' [7],
          Begin_bulk_copy ''planet_osm_line'' ''osm_id,way'', Write_bulk_copy_chunk ''b2'',
          End_bulk_copy, Disconnect]"
    by (simp add: thread_defs)
  then obtain w where r: "run two_tables (?evs @ [Finish_return]) (db_copy_thread_t_new None) = Some w"
    and s: "sent (m_conn w) =
         [Connect, Begin_bulk_copy ''planet_osm_point'' [], Write_bulk_copy_chunk ''b1'',
          End_bulk_copy, Execute_delete ''planet_osm_line'' ''osm_id'' [7],
          Begin_bulk_copy ''planet_osm_line'' ''osm_id,way'', Write_bulk_copy_chunk ''b2'',
          End_bulk_copy, Disconnect]"
    by blast
  from finish_returns_after_drain [OF r] obtain pre post
    where p: "pushes ?evs = pre @ Cmd_finish # post" "Cmd_finish \<notin> set pre"
      "applied w = pre @ [Cmd_finish]" "m_worker_queue w = post" "m_inflight w = None"
      "m_worker w = Finished"
    by blast
  from p(1,2) have "pre = [copy_cmd 0 ''b1'' [], copy_cmd 1 ''b2'' [7]] \<and> post = []"
    by (cases pre; cases "tl pre"; cases "tl (tl pre)") (auto simp: copy_cmd_def)
  with p r s show ?thesis
    by auto
qed

end
